theory Spec2Isabelle
  imports Main "HOL-Library.Word" "HOL-Library.Signed_Division"
begin

section \<open>Machine integers\<close>

text \<open>
  Go's \<^verbatim>\<open>int\<close> is taken at its usual width of 64 bits: addition wraps around, and
  the comparisons of the source are the signed ones (\<open>\<le>s\<close>, \<open><s\<close>). \<^verbatim>\<open>len(xs)\<close> is
  \<open>of_nat (length xs)\<close>; a Go slice never holds \<open>2 ^ 63\<close> elements or more, so the
  conversion is exact on every slice the program can build.
\<close>

type_synonym go_int = "64 word"

section \<open>Data model (models.go)\<close>

text \<open>
  \<^verbatim>\<open>PageOptions{Offset, Limit}\<close> and \<^verbatim>\<open>IncidentPage{Data, Total, Offset, PageSize}\<close>.
  Both structs have a field \<^verbatim>\<open>Offset\<close>; the fields of \<^verbatim>\<open>PageOptions\<close> carry the
  prefix \<open>po_\<close> here. An incident is opaque to the pagination engine (type \<open>'i\<close>);
  \<^verbatim>\<open>*Incident\<close> is \<open>'i option\<close>, with \<open>None\<close> for \<^verbatim>\<open>nil\<close>.
\<close>

record PageOptions =
  po_Offset :: go_int
  po_Limit :: go_int

record 'i IncidentPage =
  Data :: "'i option list"
  Total :: go_int
  Offset :: go_int
  PageSize :: go_int

text \<open>\<^verbatim>\<open>func (p *IncidentPage) HasMore() bool { return p.Offset+len(p.Data) < p.Total }\<close>\<close>

definition HasMore :: "'i IncidentPage \<Rightarrow> bool" where
  "HasMore p = (Offset p + of_nat (length (Data p)) <s Total p)"

text \<open>\<^verbatim>\<open>func (p *IncidentPage) NextOffset() int { return p.Offset + len(p.Data) }\<close>\<close>

definition NextOffset :: "'i IncidentPage \<Rightarrow> go_int" where
  "NextOffset p = Offset p + of_nat (length (Data p))"

text \<open>
  \<^verbatim>\<open>searchRequest\<close> is the body of a search call: the filter (a pointer, opaque type
  \<open>'f\<close>) and the embedded \<^verbatim>\<open>PageOptions\<close>.
\<close>

record 'f searchRequest =
  sr_Filter :: "'f option"
  sr_PageOptions :: PageOptions

section \<open>Request options (options.go) and the transport boundary (internal/api)\<close>

type_synonym Header = "string \<rightharpoonup> string list"

record requestConfig =
  headers :: Header

type_synonym RequestOption = "requestConfig \<Rightarrow> requestConfig"

definition newRequestConfig :: requestConfig where
  "newRequestConfig = \<lparr>headers = Map.empty\<rparr>"

definition apply_opts :: "requestConfig \<Rightarrow> RequestOption list \<Rightarrow> requestConfig" where
  "apply_opts r opts = fold (\<lambda>opt r. opt r) opts r"

record 'f Request =
  Method :: string
  Path :: string
  Body :: "'f searchRequest"
  Headers :: Header

record Response =
  StatusCode :: go_int
  resp_Body :: "8 word list"
  resp_Headers :: Header

text \<open>
  A context is read through \<^verbatim>\<open>ctx.Err()\<close>: a query on the world \<open>'w\<close> outside the
  program (the remote server, the cancellation state) that gives \<open>None\<close> for
  \<^verbatim>\<open>nil\<close>.
\<close>

type_synonym ('e, 'w) Context = "'w \<Rightarrow> 'e option"

text \<open>
  The service reaches the network through \<^verbatim>\<open>transport.DoJSON(ctx, req, &result)\<close>,
  which may change the world and gives either \<^verbatim>\<open>err != nil\<close> (\<open>Inl\<close>) or the
  response together with the value it left in \<^verbatim>\<open>result\<close> (\<open>Inr\<close>). The HTTP
  exchange itself is outside this development, so \<open>DoJSON\<close> is a parameter, and so
  is \<^verbatim>\<open>parseError\<close> of client.go, whose typed errors the engine hands on unread.
\<close>

record ('f, 'i, 'e, 'w) incidentService =
  DoJSON :: "('e, 'w) Context \<Rightarrow> 'f Request \<Rightarrow> 'w \<Rightarrow> ('e + Response \<times> 'i IncidentPage) \<times> 'w"
  parseError :: "go_int \<Rightarrow> 8 word list \<Rightarrow> Header \<Rightarrow> 'e"

section \<open>Sequences (\<^verbatim>\<open>iter.Seq2[T, error]\<close>)\<close>

text \<open>
  A Go sequence is a function that takes the acceptor \<^verbatim>\<open>yield\<close> and pushes pairs
  \<^verbatim>\<open>(item, err)\<close> into it until it has none left or \<^verbatim>\<open>yield\<close> answers
  \<^verbatim>\<open>false\<close>. The acceptor is a closure: it reads and writes the variables it
  captured (state \<open>'c\<close>) and may act on the world (state \<open>'w\<close>, for instance by
  cancelling a context). Both states are passed explicitly. A sequence returns the
  two states it ends in, or \<open>None\<close> when it never returns.

  A \<^verbatim>\<open>for item, err := range seq { ... }\<close> statement runs \<^verbatim>\<open>seq\<close> with the loop
  body as acceptor: the body answers \<^verbatim>\<open>true\<close> at its end and \<^verbatim>\<open>false\<close> at a
  \<^verbatim>\<open>break\<close> or \<^verbatim>\<open>return\<close>. The Go runtime stops with a panic a sequence that
  calls the body again after \<^verbatim>\<open>false\<close>; every sequence defined below returns at
  once in that case, so the check never fires here and is left out.
\<close>

type_synonym ('t, 'e, 'c, 'w) yield =
  "'t \<Rightarrow> 'e option \<Rightarrow> 'c \<Rightarrow> 'w \<Rightarrow> bool \<times> 'c \<times> 'w"

type_synonym ('t, 'e, 'c, 'w) Seq2 =
  "('t, 'e, 'c, 'w) yield \<Rightarrow> 'c \<Rightarrow> 'w \<Rightarrow> ('c \<times> 'w) option"

subsection \<open>Collect and CollectN (iterator.go)\<close>

text \<open>
  The body of the loop in \<^verbatim>\<open>Collect\<close>. Its captured state is \<^verbatim>\<open>result\<close> and the
  error of the \<^verbatim>\<open>return result, err\<close> inside the loop (\<open>None\<close> while the loop has
  not returned), so that the state after the loop is the pair \<^verbatim>\<open>Collect\<close> returns.
\<close>

definition Collect_body :: "('t, 'e, 't list \<times> 'e option, 'w) yield" where
  "Collect_body item err st w =
     (case st of (result, ret) \<Rightarrow>
        (case err of
           Some e \<Rightarrow> (False, (result, Some e), w)
         | None \<Rightarrow> (True, (result @ [item], ret), w)))"

definition Collect_iter ::
  "('t, 'e, 't list \<times> 'e option, 'w) Seq2 \<Rightarrow> 'w \<Rightarrow> (('t list \<times> 'e option) \<times> 'w) option" where
  "Collect_iter seq w = seq Collect_body ([], None) w"

text \<open>
  \<^verbatim>\<open>CollectN\<close> first allocates \<^verbatim>\<open>make([]T, 0, n)\<close>, which panics at run time
  (\<^verbatim>\<open>makeslice: cap out of range\<close>) when \<^verbatim>\<open>n\<close> is negative or beyond the largest
  capacity the runtime allocates for the element type. That bound belongs to the
  runtime and the element size, not to this package; it is the parameter \<open>maxCap\<close>.
  The loop body appends and then compares \<^verbatim>\<open>len(result) >= n\<close>.
\<close>

datatype go_panic = MakesliceCapOutOfRange

definition CollectN_body :: "go_int \<Rightarrow> ('t, 'e, 't list \<times> 'e option, 'w) yield" where
  "CollectN_body n item err st w =
     (case st of (result, ret) \<Rightarrow>
        (case err of
           Some e \<Rightarrow> (False, (result, Some e), w)
         | None \<Rightarrow>
             (let result = result @ [item] in
              if n \<le>s of_nat (length result) then (False, (result, ret), w)
              else (True, (result, ret), w))))"

definition CollectN ::
  "nat \<Rightarrow> ('t, 'e, 't list \<times> 'e option, 'w) Seq2 \<Rightarrow> go_int \<Rightarrow> 'w
     \<Rightarrow> (go_panic + ('t list \<times> 'e option) \<times> 'w) option" where
  "CollectN maxCap seq n w =
     (if n <s 0 \<or> maxCap < nat (sint n) then Some (Inl MakesliceCapOutOfRange)
      else (case seq (CollectN_body n) ([], None) w of
              None \<Rightarrow> None
            | Some r \<Rightarrow> Some (Inr r)))"

subsection \<open>Take, Filter and Map (iterator.go)\<close>

text \<open>
  The loop body of \<^verbatim>\<open>Take\<close> captures \<^verbatim>\<open>count\<close> and the acceptor of the caller,
  whose own captured state \<open>'c\<close> travels with it. The condition
  \<^verbatim>\<open>!yield(item, err) || err != nil\<close> calls \<^verbatim>\<open>yield\<close> first, whatever \<^verbatim>\<open>err\<close> is.
\<close>

definition Take_body ::
  "go_int \<Rightarrow> ('t, 'e, 'c, 'w) yield \<Rightarrow> ('t, 'e, go_int \<times> 'c, 'w) yield" where
  "Take_body n yield item err st w =
     (case st of (count, c) \<Rightarrow>
        (case yield item err c w of (ok, c', w') \<Rightarrow>
           if \<not> ok \<or> err \<noteq> None then (False, (count, c'), w')
           else (let count = count + 1 in
                 if n \<le>s count then (False, (count, c'), w')
                 else (True, (count, c'), w'))))"

definition Take ::
  "('t, 'e, go_int \<times> 'c, 'w) Seq2 \<Rightarrow> go_int \<Rightarrow> ('t, 'e, 'c, 'w) Seq2" where
  "Take seq n = (\<lambda>yield c w.
     (case seq (Take_body n yield) (0, c) w of
        None \<Rightarrow> None
      | Some ((count, c'), w') \<Rightarrow> Some (c', w')))"

definition Filter_body ::
  "('t \<Rightarrow> bool) \<Rightarrow> ('t, 'e, 'c, 'w) yield \<Rightarrow> ('t, 'e, 'c, 'w) yield" where
  "Filter_body pred yield item err c w =
     (case err of
        Some e \<Rightarrow> (case yield item (Some e) c w of (ok, c', w') \<Rightarrow> (False, c', w'))
      | None \<Rightarrow>
          if pred item
          then (case yield item None c w of (ok, c', w') \<Rightarrow>
                  if \<not> ok then (False, c', w') else (True, c', w'))
          else (True, c, w))"

definition Filter ::
  "('t, 'e, 'c, 'w) Seq2 \<Rightarrow> ('t \<Rightarrow> bool) \<Rightarrow> ('t, 'e, 'c, 'w) Seq2" where
  "Filter seq pred = (\<lambda>yield c w. seq (Filter_body pred yield) c w)"

text \<open>
  \<^verbatim>\<open>Map\<close> pushes an upstream error with \<^verbatim>\<open>var zero U\<close> as item; the zero value of
  the target type is the parameter \<open>zero\<close>.
\<close>

definition Map_body ::
  "'u \<Rightarrow> ('t \<Rightarrow> 'u) \<Rightarrow> ('u, 'e, 'c, 'w) yield \<Rightarrow> ('t, 'e, 'c, 'w) yield" where
  "Map_body zero fn yield item err c w =
     (case err of
        Some e \<Rightarrow> (case yield zero (Some e) c w of (ok, c', w') \<Rightarrow> (False, c', w'))
      | None \<Rightarrow>
          (case yield (fn item) None c w of (ok, c', w') \<Rightarrow>
             if \<not> ok then (False, c', w') else (True, c', w')))"

definition Map ::
  "'u \<Rightarrow> ('t, 'e, 'c, 'w) Seq2 \<Rightarrow> ('t \<Rightarrow> 'u) \<Rightarrow> ('u, 'e, 'c, 'w) Seq2" where
  "Map zero seq fn = (\<lambda>yield c w. seq (Map_body zero fn yield) c w)"

subsection \<open>List-backed sequences (iterator_test.go)\<close>

text \<open>\<^verbatim>\<open>makeSeq\<close> pushes the items of a slice in order and returns at the first \<^verbatim>\<open>false\<close>.\<close>

fun makeSeq :: "'t list \<Rightarrow> ('t, 'e, 'c, 'w) Seq2" where
  "makeSeq [] yield c w = Some (c, w)"
| "makeSeq (item # items) yield c w =
     (case yield item None c w of (ok, c', w') \<Rightarrow>
        if \<not> ok then Some (c', w') else makeSeq items yield c' w')"

text \<open>
  \<^verbatim>\<open>makeSeqWithError\<close> does the same, but at index \<^verbatim>\<open>errAt\<close> it pushes the error
  (with the zero value as item) and returns. The loop index is the first argument.
\<close>

fun makeSeqWithError_from ::
  "nat \<Rightarrow> 't \<Rightarrow> 't list \<Rightarrow> go_int \<Rightarrow> 'e \<Rightarrow> ('t, 'e, 'c, 'w) Seq2" where
  "makeSeqWithError_from i zero [] errAt err yield c w = Some (c, w)"
| "makeSeqWithError_from i zero (item # items) errAt err yield c w =
     (if of_nat i = errAt
      then (case yield zero (Some err) c w of (ok, c', w') \<Rightarrow> Some (c', w'))
      else (case yield item None c w of (ok, c', w') \<Rightarrow>
              if \<not> ok then Some (c', w')
              else makeSeqWithError_from (Suc i) zero items errAt err yield c' w'))"

definition makeSeqWithError ::
  "'t \<Rightarrow> 't list \<Rightarrow> go_int \<Rightarrow> 'e \<Rightarrow> ('t, 'e, 'c, 'w) Seq2" where
  "makeSeqWithError zero items errAt err = makeSeqWithError_from 0 zero items errAt err"

section \<open>The paginated search (incidents.go)\<close>

definition defaultPageSize :: go_int where
  "defaultPageSize = 100"

definition maxPageSize :: go_int where
  "maxPageSize = 1000"

subsection \<open>SearchPage\<close>

text \<open>
  The request \<^verbatim>\<open>SearchPage\<close> builds before it calls the transport: the headers of
  the request options, a \<^verbatim>\<open>nil\<close> page replaced by \<^verbatim>\<open>&PageOptions{}\<close>, then the two
  assignments to \<^verbatim>\<open>page.Limit\<close>, one after the other. The assignments go through
  the caller's pointer; \<^verbatim>\<open>Search\<close> passes a fresh struct on every round, so nothing
  else reads the changed value.
\<close>

definition SearchPage_request ::
  "'f option \<Rightarrow> PageOptions option \<Rightarrow> RequestOption list \<Rightarrow> 'f Request" where
  "SearchPage_request flt page opts =
     (let reqCfg = apply_opts newRequestConfig opts;
          page = (case page of None \<Rightarrow> \<lparr>po_Offset = 0, po_Limit = 0\<rparr> | Some p \<Rightarrow> p);
          page = (if po_Limit page \<le>s 0 then page\<lparr>po_Limit := defaultPageSize\<rparr> else page);
          page = (if maxPageSize <s po_Limit page then page\<lparr>po_Limit := maxPageSize\<rparr> else page)
      in \<lparr>Method = ''POST'', Path = ''/incidents/search'',
          Body = \<lparr>sr_Filter = flt, sr_PageOptions = page\<rparr>,
          Headers = headers reqCfg\<rparr>)"

text \<open>
  \<^verbatim>\<open>SearchPage\<close> returns the transport's error, or the error \<^verbatim>\<open>parseError\<close> makes of
  a status code of 400 or more, or the decoded page.
\<close>

definition SearchPage ::
  "('f, 'i, 'e, 'w) incidentService \<Rightarrow> ('e, 'w) Context \<Rightarrow> 'f option \<Rightarrow> PageOptions option
     \<Rightarrow> RequestOption list \<Rightarrow> 'w \<Rightarrow> ('e + 'i IncidentPage) \<times> 'w" where
  "SearchPage s ctx flt page opts w =
     (case DoJSON s ctx (SearchPage_request flt page opts) w of
        (Inl err, w') \<Rightarrow> (Inl err, w')
      | (Inr (resp, result), w') \<Rightarrow>
          if 400 \<le>s StatusCode resp
          then (Inl (parseError s (StatusCode resp) (resp_Body resp) (resp_Headers resp)), w')
          else (Inr result, w'))"

subsection \<open>yieldPageItems\<close>

text \<open>
  The loop over \<^verbatim>\<open>page.Data\<close>: \<^verbatim>\<open>ctx.Err()\<close> is read before each item; a cancelled
  context pushes \<^verbatim>\<open>(nil, err)\<close> and gives \<^verbatim>\<open>false\<close>, and so does an acceptor that
  answers \<^verbatim>\<open>false\<close>.
\<close>

fun yieldItems ::
  "('e, 'w) Context \<Rightarrow> 'i option list \<Rightarrow> ('i option, 'e, 'c, 'w) yield \<Rightarrow> 'c \<Rightarrow> 'w
     \<Rightarrow> bool \<times> 'c \<times> 'w" where
  "yieldItems ctx [] yield c w = (True, c, w)"
| "yieldItems ctx (incident # rest) yield c w =
     (case ctx w of
        Some err \<Rightarrow> (case yield None (Some err) c w of (ok, c', w') \<Rightarrow> (False, c', w'))
      | None \<Rightarrow>
          (case yield incident None c w of (ok, c', w') \<Rightarrow>
             if \<not> ok then (False, c', w') else yieldItems ctx rest yield c' w'))"

definition yieldPageItems ::
  "('e, 'w) Context \<Rightarrow> 'i IncidentPage \<Rightarrow> ('i option, 'e, 'c, 'w) yield \<Rightarrow> 'c \<Rightarrow> 'w
     \<Rightarrow> bool \<times> 'c \<times> 'w" where
  "yieldPageItems ctx page yield c w = yieldItems ctx (Data page) yield c w"

subsection \<open>Search\<close>

text \<open>
  One round of the \<^verbatim>\<open>for { ... }\<close> loop of \<^verbatim>\<open>Search\<close>, from the value of
  \<^verbatim>\<open>offset\<close> at its head: either the function returns, or the loop goes round
  again with \<^verbatim>\<open>offset = page.NextOffset()\<close>. \<^verbatim>\<open>pageSize\<close> is never assigned after
  its initialisation to \<^verbatim>\<open>defaultPageSize\<close>.
\<close>

datatype ('c, 'w) round = Return 'c 'w | Again go_int 'c 'w

definition Search_round ::
  "('f, 'i, 'e, 'w) incidentService \<Rightarrow> ('e, 'w) Context \<Rightarrow> 'f option \<Rightarrow> RequestOption list
     \<Rightarrow> ('i option, 'e, 'c, 'w) yield \<Rightarrow> go_int \<Rightarrow> 'c \<Rightarrow> 'w \<Rightarrow> ('c, 'w) round" where
  "Search_round s ctx flt opts yield offset c w =
     (case SearchPage s ctx flt (Some \<lparr>po_Offset = offset, po_Limit = defaultPageSize\<rparr>) opts w of
        (Inl err, w1) \<Rightarrow>
          (case yield None (Some err) c w1 of (ok, c', w') \<Rightarrow> Return c' w')
      | (Inr page, w1) \<Rightarrow>
          (case yieldPageItems ctx page yield c w1 of (ok, c', w') \<Rightarrow>
             if \<not> ok then Return c' w'
             else if \<not> HasMore page then Return c' w'
             else Again (NextOffset page) c' w'))"

text \<open>The loop has no bound of its own: it may run forever, which is the value \<open>None\<close>.\<close>

partial_function (option) Search_loop ::
  "('f, 'i, 'e, 'w) incidentService \<Rightarrow> ('e, 'w) Context \<Rightarrow> 'f option \<Rightarrow> RequestOption list
     \<Rightarrow> ('i option, 'e, 'c, 'w) yield \<Rightarrow> go_int \<Rightarrow> 'c \<Rightarrow> 'w \<Rightarrow> ('c \<times> 'w) option" where
  "Search_loop s ctx flt opts yield offset c w =
     (case Search_round s ctx flt opts yield offset c w of
        Return c' w' \<Rightarrow> Some (c', w')
      | Again offset' c' w' \<Rightarrow> Search_loop s ctx flt opts yield offset' c' w')"

definition Search ::
  "('f, 'i, 'e, 'w) incidentService \<Rightarrow> ('e, 'w) Context \<Rightarrow> 'f option \<Rightarrow> RequestOption list
     \<Rightarrow> ('i option, 'e, 'c, 'w) Seq2" where
  "Search s ctx flt opts = (\<lambda>yield c w. Search_loop s ctx flt opts yield 0 c w)"

text \<open>
  The head of the loop after \<open>k\<close> complete rounds, from a given head: the value of
  \<^verbatim>\<open>offset\<close> and the two states with which the next fetch is made, or \<open>None\<close>
  when \<^verbatim>\<open>Search\<close> has returned before.
\<close>

fun Search_rounds ::
  "('f, 'i, 'e, 'w) incidentService \<Rightarrow> ('e, 'w) Context \<Rightarrow> 'f option \<Rightarrow> RequestOption list
     \<Rightarrow> ('i option, 'e, 'c, 'w) yield \<Rightarrow> nat \<Rightarrow> go_int \<Rightarrow> 'c \<Rightarrow> 'w
     \<Rightarrow> (go_int \<times> 'c \<times> 'w) option" where
  "Search_rounds s ctx flt opts yield 0 offset c w = Some (offset, c, w)"
| "Search_rounds s ctx flt opts yield (Suc k) offset c w =
     (case Search_round s ctx flt opts yield offset c w of
        Return c' w' \<Rightarrow> None
      | Again offset' c' w' \<Rightarrow> Search_rounds s ctx flt opts yield k offset' c' w')"

section \<open>Fixtures of the test files\<close>

text \<open>
  \<^verbatim>\<open>context.Background()\<close> is never cancelled. The world of the tests is the list
  of page requests the server has received (its \<^verbatim>\<open>callCount\<close> is the length) and
  whether \<^verbatim>\<open>cancel()\<close> has been called on the context of the test.
\<close>

definition Background :: "('e, 'w) Context" where
  "Background w = None"

datatype test_error = HTTPStatus go_int | ContextCanceled | TestError

record world =
  requests :: "PageOptions list"
  cancelled :: bool

definition cancelCtx :: "(test_error, world) Context" where
  "cancelCtx w = (if cancelled w then Some ContextCanceled else None)"

text \<open>
  The handlers of incidents\_test.go, seen through \<^verbatim>\<open>DoJSON\<close>: the server holds a
  fixed list of incidents (their IDs) and answers a request at \<^verbatim>\<open>fromIndex\<close> with at
  most \<open>K\<close> of them and the total; its call number \<open>failAt\<close> is answered with
  status 500 instead (\<open>failAt = 0\<close>: never).
\<close>

definition testHandler ::
  "string option list \<Rightarrow> nat \<Rightarrow> nat \<Rightarrow> (test_error, world) Context \<Rightarrow> unit Request \<Rightarrow> world
     \<Rightarrow> (test_error + Response \<times> string IncidentPage) \<times> world" where
  "testHandler items K failAt ctx req w =
     (let page = sr_PageOptions (Body req);
          w' = w\<lparr>requests := requests w @ [page]\<rparr>
      in if length (requests w') = failAt
         then (Inr (\<lparr>StatusCode = 500, resp_Body = [], resp_Headers = Map.empty\<rparr>,
                    \<lparr>Data = [], Total = 0, Offset = 0, PageSize = 0\<rparr>), w')
         else (Inr (\<lparr>StatusCode = 200, resp_Body = [], resp_Headers = Map.empty\<rparr>,
                    \<lparr>Data = take K (drop (unat (po_Offset page)) items),
                     Total = of_nat (length items), Offset = po_Offset page, PageSize = 0\<rparr>), w'))"

definition testService ::
  "string option list \<Rightarrow> nat \<Rightarrow> nat \<Rightarrow> (unit, string, test_error, world) incidentService" where
  "testService items K failAt =
     \<lparr>DoJSON = testHandler items K failAt, parseError = (\<lambda>code body hdrs. HTTPStatus code)\<rparr>"



text \<open>
  The loop body of the cancellation test: it keeps the error and breaks, or appends
  the incident and calls \<^verbatim>\<open>cancel()\<close> once it holds exactly one.
\<close>

definition cancelAfterFirst :: "(string option, test_error, string option list \<times> test_error option, world) yield" where
  "cancelAfterFirst incident err st w =
     (case st of (incidents, iterErr) \<Rightarrow>
        (case err of
           Some e \<Rightarrow> (False, (incidents, Some e), w)
         | None \<Rightarrow>
             (let incidents = incidents @ [incident] in
              if length incidents = 1 then (True, (incidents, iterErr), w\<lparr>cancelled := True\<rparr>)
              else (True, (incidents, iterErr), w))))"

text \<open>
  The functions of the composition test: \<^verbatim>\<open>n%2 == 0\<close> (Go's remainder takes the
  sign of the dividend) and \<^verbatim>\<open>n * 2\<close>.
\<close>

definition isEven :: "go_int \<Rightarrow> bool" where
  "isEven n = (sint n smod 2 = 0)"

definition double :: "go_int \<Rightarrow> go_int" where
  "double n = n * 2"

text \<open>
  A probe for what a sequence pushes: \<open>logged seq\<close> behaves as \<open>seq\<close> and appends
  every pair to the world, here a list of pairs, before the acceptor sees it.
\<close>

definition logged ::
  "('t, 'e, 'c, ('t \<times> 'e option) list) Seq2 \<Rightarrow> ('t, 'e, 'c, ('t \<times> 'e option) list) Seq2" where
  "logged seq = (\<lambda>yield c w. seq (\<lambda>item err c w. yield item err c (w @ [(item, err)])) c w)"

text \<open>The incidents \<^verbatim>\<open>inc-1\<close> to \<^verbatim>\<open>inc-5\<close> of the pagination test, and the three of the cancellation test.\<close>

definition fiveIncidents :: "string option list" where
  "fiveIncidents = [Some ''inc-1'', Some ''inc-2'', Some ''inc-3'', Some ''inc-4'', Some ''inc-5'']"

definition threeIncidents :: "string option list" where
  "threeIncidents = [Some ''inc-1'', Some ''inc-2'', Some ''inc-3'']"

section \<open>Signed 64-bit arithmetic on lengths\<close>

text \<open>
  A length below \<open>2 ^ 63\<close> is its own signed value, and adding a length to an
  \<^verbatim>\<open>int\<close> is exact as long as the sum stays below \<open>2 ^ 63\<close>.
\<close>

lemma sint_of_nat_small:
  "n < 2 ^ 63 \<Longrightarrow> sint (of_nat n :: go_int) = int n"
  by (simp add: signed_of_nat signed_take_bit_int_eq_self)

lemma sint_add_of_nat:
  "sint (a + of_nat n :: go_int) = signed_take_bit 63 (sint a + int n)"
proof -
  have sa: "signed_take_bit 63 (sint a) = sint a"
    using sint_ge[of a] sint_lt[of a] by (simp add: signed_take_bit_int_eq_self)
  have "sint (a + of_nat n :: go_int) = signed_take_bit 63 (sint a + sint (of_nat n :: go_int))"
    by (simp add: sint_word_ariths)
  also have "\<dots> = signed_take_bit 63 (signed_take_bit 63 (sint a) + signed_take_bit 63 (int n))"
    by (simp add: signed_of_nat sa)
  also have "\<dots> = signed_take_bit 63 (sint a + int n)"
    by (rule signed_take_bit_add)
  finally show ?thesis .
qed

lemma sint_add_of_nat_exact:
  assumes "sint a + int n < 2 ^ 63"
  shows "sint (a + of_nat n :: go_int) = sint a + int n"
proof -
  have "- (2 ^ 63) \<le> sint a" using sint_ge[of a] by simp
  then have "- (2 ^ 63) \<le> sint a + int n" by simp
  with assms show ?thesis
    by (simp add: sint_add_of_nat signed_take_bit_int_eq_self)
qed

lemma of_nat_sless_iff:
  "a < 2 ^ 63 \<Longrightarrow> b < 2 ^ 63 \<Longrightarrow> ((of_nat a :: go_int) <s of_nat b) = (a < b)"
  by (simp add: word_sless_alt sint_of_nat_small)

lemma sle_of_nat_iff:
  assumes "0 < sint n" and "int r \<le> sint n"
  shows "(n \<le>s (of_nat r :: go_int)) = (sint n = int r)"
proof -
  have "sint n < 2 ^ 63" using sint_lt[of n] by simp
  with assms(2) have "r < 2 ^ 63" by (simp add: nat_less_iff flip: of_nat_less_iff)
  then have "sint (of_nat r :: go_int) = int r" by (rule sint_of_nat_small)
  with assms(2) show ?thesis by (auto simp: word_sle_eq)
qed

section \<open>The loop of Search, round by round\<close>

lemma Search_loop_rounds:
  "Search_rounds s ctx flt opts yield k offset c w = Some (offset', c', w') \<Longrightarrow>
   Search_loop s ctx flt opts yield offset c w = Search_loop s ctx flt opts yield offset' c' w'"
proof (induction k arbitrary: offset c w)
  case 0
  then show ?case by simp
next
  case (Suc k)
  then show ?case
    by (subst Search_loop.simps) (auto split: round.splits)
qed

lemma Search_loop_Return:
  "Search_round s ctx flt opts yield offset c w = Return c' w' \<Longrightarrow>
   Search_loop s ctx flt opts yield offset c w = Some (c', w')"
  by (subst Search_loop.simps) simp

lemma Search_loop_Again:
  "Search_round s ctx flt opts yield offset c w = Again offset' c' w' \<Longrightarrow>
   Search_loop s ctx flt opts yield offset c w = Search_loop s ctx flt opts yield offset' c' w'"
  by (subst Search_loop.simps) simp

lemma yieldItems_append:
  "yieldItems ctx (xs @ ys) yield c w =
     (case yieldItems ctx xs yield c w of (ok, c', w') \<Rightarrow>
        if ok then yieldItems ctx ys yield c' w' else (False, c', w'))"
  by (induction xs arbitrary: c w) (auto split: option.splits prod.splits)





lemma yieldItems_Collect_body:
  "\<forall>w. ctx w = None \<Longrightarrow>
   yieldItems ctx xs Collect_body (acc, ret) w = (True, (acc @ xs, ret), w)"
  by (induction xs arbitrary: acc) (simp_all add: Collect_body_def)

lemma mult_less_iff_less_ceil:
  fixes K N j :: nat
  assumes "0 < K"
  shows "(j * K < N) = (j < (N + K - 1) div K)"
proof -
  have "(j < (N + K - 1) div K) = (Suc j \<le> (N + K - 1) div K)"
    by auto
  also have "\<dots> = (Suc j * K \<le> N + K - 1)"
    using assms by (simp add: less_eq_div_iff_mult_less_eq)
  also have "\<dots> = (j * K < N)"
    using assms by auto
  finally show ?thesis by simp
qed

lemma Search_loop_serves:
  fixes items :: "'i option list"
  assumes K: "0 < K" and N: "length items < 2 ^ 63"
      and ctx: "\<forall>w. ctx w = None"
      and serves: "\<forall>off w. off \<le> length items \<longrightarrow>
         (\<exists>page. fst (SearchPage s ctx flt (Some \<lparr>po_Offset = of_nat off, po_Limit = defaultPageSize\<rparr>) opts w) = Inr page
            \<and> Data page = take K (drop off items)
            \<and> Total page = of_nat (length items)
            \<and> Offset page = of_nat off)"
      and i: "i < max 1 ((length items + K - 1) div K)"
  shows "Search_loop s ctx flt opts Collect_body (of_nat (i * K)) (acc, None) w =
         Some ((acc @ drop (i * K) items, None),
               fold (\<lambda>off w. snd (SearchPage s ctx flt (Some \<lparr>po_Offset = of_nat off, po_Limit = defaultPageSize\<rparr>) opts w))
                 (map (\<lambda>j. j * K) [i..<max 1 ((length items + K - 1) div K)]) w)"
  using i
proof (induction "max 1 ((length items + K - 1) div K) - i" arbitrary: i acc w)
  case 0
  then have False by linarith
  then show ?case ..
next
  case (Suc n)
  define M where "M = max 1 ((length items + K - 1) div K)"
  define off where "off = i * K"
  define fetch where "fetch = (\<lambda>off w. snd (SearchPage s ctx flt (Some \<lparr>po_Offset = of_nat off, po_Limit = defaultPageSize\<rparr>) opts w))"
  have iM: "i < M" using Suc.prems by (simp add: M_def)
  have off_le: "off \<le> length items"
  proof (cases "i = 0")
    case True
    then show ?thesis by (simp add: off_def)
  next
    case False
    with iM have "i < (length items + K - 1) div K" by (simp add: M_def)
    then have "i * K < length items" using mult_less_iff_less_ceil[OF K, of i "length items"] by blast
    then show ?thesis by (simp add: off_def)
  qed
  from serves off_le obtain page where
    pg: "fst (SearchPage s ctx flt (Some \<lparr>po_Offset = of_nat off, po_Limit = defaultPageSize\<rparr>) opts w) = Inr page"
    and data: "Data page = take K (drop off items)"
    and total: "Total page = of_nat (length items)"
    and offs: "Offset page = of_nat off"
    by blast
  have sp: "SearchPage s ctx flt (Some \<lparr>po_Offset = of_nat off, po_Limit = defaultPageSize\<rparr>) opts w = (Inr page, fetch off w)"
    using pg by (simp add: fetch_def prod_eq_iff)
  have len: "length (Data page) = min K (length items - off)"
    by (simp add: data min.commute)
  have sum_le: "off + length (Data page) \<le> length items"
    using off_le by (simp add: len)
  have hm: "HasMore page = (off + K < length items)"
  proof -
    have "HasMore page = ((of_nat (off + length (Data page)) :: go_int) <s of_nat (length items))"
      by (simp add: HasMore_def total offs)
    also have "\<dots> = (off + length (Data page) < length items)"
      using sum_le N by (intro of_nat_sless_iff) auto
    also have "\<dots> = (off + K < length items)"
      using off_le by (auto simp: len min_def)
    finally show ?thesis .
  qed
  have yp: "yieldPageItems ctx page Collect_body (acc, None) (fetch off w) =
              (True, (acc @ take K (drop off items), None), fetch off w)"
    using ctx by (simp add: yieldPageItems_def data yieldItems_Collect_body)
  have upt: "[i..<M] = i # [Suc i..<M]"
    using iM by (simp add: upt_conv_Cons)
  show ?case
  proof (cases "Suc i < M")
    case True
    then have "Suc i < (length items + K - 1) div K" by (simp add: M_def)
    then have lt: "Suc i * K < length items"
      using mult_less_iff_less_ceil[OF K, of "Suc i" "length items"] by blast
    then have more: "off + K < length items" by (simp add: off_def add.commute)
    have next_off: "NextOffset page = of_nat (Suc i * K)"
      using more by (simp add: NextOffset_def offs len off_def add.commute)
    have round: "Search_round s ctx flt opts Collect_body (of_nat off) (acc, None) w =
                   Again (of_nat (Suc i * K)) (acc @ take K (drop off items), None) (fetch off w)"
      using more by (simp add: Search_round_def sp yp hm next_off)
    have n: "n = max 1 ((length items + K - 1) div K) - Suc i"
      using Suc.hyps(2) by simp
    have ih: "Search_loop s ctx flt opts Collect_body (of_nat (Suc i * K)) (acc @ take K (drop off items), None) (fetch off w) =
                Some (((acc @ take K (drop off items)) @ drop (Suc i * K) items, None),
                      fold fetch (map (\<lambda>j. j * K) [Suc i..<M]) (fetch off w))"
      using Suc.hyps(1)[OF n] True by (simp add: M_def fetch_def)
    have items_eq: "take K (drop off items) @ drop (Suc i * K) items = drop off items"
    proof -
      have "take K (drop off items) @ drop K (drop off items) = drop off items"
        by (rule append_take_drop_id)
      moreover have "drop K (drop off items) = drop (Suc i * K) items"
        by (simp add: off_def add.commute)
      ultimately show ?thesis by (simp only:)
    qed
    have "Search_loop s ctx flt opts Collect_body (of_nat off) (acc, None) w =
            Some ((acc @ drop off items, None), fold fetch (map (\<lambda>j. j * K) [i..<M]) w)"
      using Search_loop_Again[OF round] ih items_eq by (simp add: upt off_def)
    then show ?thesis by (simp add: off_def M_def fetch_def)
  next
    case False
    with iM have last: "M = Suc i" by simp
    have "\<not> Suc i * K < length items"
    proof
      assume "Suc i * K < length items"
      then have "Suc i < (length items + K - 1) div K"
        using mult_less_iff_less_ceil[OF K, of "Suc i" "length items"] by blast
      then have "Suc i < M" by (simp add: M_def)
      with False show False by simp
    qed
    then have nomore: "\<not> off + K < length items" by (simp add: off_def add.commute)
    have round: "Search_round s ctx flt opts Collect_body (of_nat off) (acc, None) w =
                   Return (acc @ take K (drop off items), None) (fetch off w)"
      using nomore by (simp add: Search_round_def sp yp hm)
    have all: "take K (drop off items) = drop off items"
      using nomore by simp
    have "Search_loop s ctx flt opts Collect_body (of_nat off) (acc, None) w =
            Some ((acc @ drop off items, None), fold fetch (map (\<lambda>j. j * K) [i..<M]) w)"
      using Search_loop_Return[OF round] unfolding all by (simp add: last off_def)
    then show ?thesis by (simp add: off_def M_def fetch_def)
  qed
qed

lemma yieldItems_stop_at:
  assumes i: "i < length xs"
      and delivered: "yieldItems ctx (take i xs) yield c w = (True, c1, w1)"
  shows "yieldItems ctx xs yield c w =
           (case ctx w1 of
              Some err \<Rightarrow> (case yield None (Some err) c1 w1 of (ok, c', w') \<Rightarrow> (False, c', w'))
            | None \<Rightarrow>
               (case yield (xs ! i) None c1 w1 of (ok, c', w') \<Rightarrow>
                  if \<not> ok then (False, c', w') else yieldItems ctx (drop (Suc i) xs) yield c' w'))"
proof -
  have "xs = take i xs @ (xs ! i # drop (Suc i) xs)"
    using i by (simp add: id_take_nth_drop)
  then have "yieldItems ctx xs yield c w = yieldItems ctx (take i xs @ (xs ! i # drop (Suc i) xs)) yield c w"
    by simp
  also have "\<dots> = yieldItems ctx (xs ! i # drop (Suc i) xs) yield c1 w1"
    by (simp only: yieldItems_append delivered) simp
  finally show ?thesis by simp
qed

lemma Search_returns_from_round:
  assumes "Search_rounds s ctx flt opts yield k 0 c0 w0 = Some (offset, c, w)"
      and "SearchPage s ctx flt (Some \<lparr>po_Offset = offset, po_Limit = defaultPageSize\<rparr>) opts w = (Inr page, w')"
      and "yieldPageItems ctx page yield c w' = (False, c2, w2)"
  shows "Search s ctx flt opts yield c0 w0 = Some (c2, w2)"
proof -
  have "Search_round s ctx flt opts yield offset c w = Return c2 w2"
    using assms(2,3) by (simp add: Search_round_def)
  then have "Search_loop s ctx flt opts yield offset c w = Some (c2, w2)"
    by (rule Search_loop_Return)
  with Search_loop_rounds[OF assms(1)] show ?thesis
    by (simp add: Search_def)
qed

section \<open>List-backed sequences under the combinators\<close>

text \<open>
  Over a sequence that pushes the items of a list, \<^verbatim>\<open>Filter\<close> and \<^verbatim>\<open>Map\<close> push the
  filtered and the mapped list to any acceptor, and \<^verbatim>\<open>Collect\<close> returns the list. For a
  count \<open>n \<ge> 1\<close>, \<^verbatim>\<open>Take\<close> pushes the first \<open>n\<close> items and \<^verbatim>\<open>CollectN\<close> returns them
  (when \<^verbatim>\<open>make\<close> allocates \<open>n\<close>).
  So a combinator over a list-backed sequence is a list-backed sequence again, at any
  depth of nesting.
\<close>

lemma Filter_makeSeq:
  "Filter (makeSeq xs) pred yield c w = makeSeq (filter pred xs) yield c w"
  by (induction xs arbitrary: c w) (auto simp: Filter_def Filter_body_def split: prod.splits)

lemma Map_makeSeq:
  "Map zero (makeSeq xs) fn yield c w = makeSeq (map fn xs) yield c w"
  by (induction xs arbitrary: c w) (auto simp: Map_def Map_body_def split: prod.splits)

lemma Collect_makeSeq_from:
  "makeSeq xs Collect_body (acc, ret) w = Some ((acc @ xs, ret), w)"
  by (induction xs arbitrary: acc) (simp_all add: Collect_body_def)

lemma Collect_makeSeq:
  "Collect_iter (makeSeq xs) w = Some ((xs, None), w)"
  by (simp add: Collect_iter_def Collect_makeSeq_from)

lemma Take_body_item:
  assumes "0 < sint n" and "int r < sint n"
  shows "Take_body n yield x None (of_nat r, c) w =
           (case yield x None c w of (ok, c', w') \<Rightarrow>
              (ok \<and> sint n \<noteq> int (Suc r), (if ok then of_nat (Suc r) else of_nat r, c'), w'))"
proof -
  have suc: "(of_nat r + 1 :: go_int) = of_nat (Suc r)"
    by simp
  have cmp: "(n \<le>s (of_nat r + 1 :: go_int)) = (sint n = int (Suc r))"
    unfolding suc using assms by (intro sle_of_nat_iff) simp_all
  show ?thesis
    by (simp add: Take_body_def Let_def cmp split: prod.splits)
qed

lemma Take_makeSeq_from:
  assumes "0 < sint n" and "int r < sint n"
  shows "map_option (\<lambda>((count, c'), w'). (c', w')) (makeSeq xs (Take_body n yield) (of_nat r, c) w) =
         makeSeq (take (nat (sint n) - r) xs) yield c w"
  using assms(2)
proof (induction xs arbitrary: r c w)
  case Nil
  then show ?case by simp
next
  case (Cons x xs)
  obtain ok c' w' where y: "yield x None c w = (ok, c', w')"
    by (cases "yield x None c w")
  have pos: "nat (sint n) - r = Suc (nat (sint n) - Suc r)"
    using Cons.prems by simp
  note step = Take_body_item[OF assms(1) Cons.prems, of yield x c w]
  show ?case
  proof (cases "ok \<and> sint n \<noteq> int (Suc r)")
    case True
    with Cons.prems have "int (Suc r) < sint n" by simp
    from Cons.IH[OF this, of c' w'] True show ?thesis
      unfolding pos by (simp add: step y)
  next
    case False
    show ?thesis
    proof (cases ok)
      case True
      with False have "nat (sint n) - Suc r = 0" by simp
      with True False show ?thesis
        unfolding pos by (simp add: step y)
    next
      case False
      then show ?thesis
        unfolding pos by (simp add: step y)
    qed
  qed
qed

lemma Take_makeSeq:
  assumes "0 < sint n"
  shows "Take (makeSeq xs) n yield c w = makeSeq (take (nat (sint n)) xs) yield c w"
proof -
  have "Take (makeSeq xs) n yield c w =
        map_option (\<lambda>((count, c'), w'). (c', w')) (makeSeq xs (Take_body n yield) (of_nat 0, c) w)"
    by (simp add: Take_def split: option.splits prod.splits)
  also have "\<dots> = makeSeq (take (nat (sint n) - 0) xs) yield c w"
    using assms by (intro Take_makeSeq_from) simp_all
  finally show ?thesis by simp
qed

lemma nested_makeSeq:
  assumes "0 < sint n"
  shows "Take (Map zero (Filter (makeSeq xs) pred) fn) n yield c w =
         makeSeq (take (nat (sint n)) (map fn (filter pred xs))) yield c w"
proof -
  have f: "Filter (makeSeq xs) pred = makeSeq (filter pred xs)"
    by (intro ext) (rule Filter_makeSeq)
  have m: "Map zero (makeSeq (filter pred xs)) fn = makeSeq (map fn (filter pred xs))"
    by (intro ext) (rule Map_makeSeq)
  show ?thesis
    unfolding f m using assms by (rule Take_makeSeq)
qed

lemma CollectN_body_item:
  assumes "0 < sint n" and "int (length acc) < sint n"
  shows "CollectN_body n x None (acc, ret) w =
           (sint n \<noteq> int (Suc (length acc)), (acc @ [x], ret), w)"
proof -
  have suc: "(1 + of_nat (length acc) :: go_int) = of_nat (Suc (length acc))"
    by simp
  have cmp: "(n \<le>s (1 + of_nat (length acc) :: go_int)) = (sint n = int (Suc (length acc)))"
    unfolding suc using assms by (intro sle_of_nat_iff) simp_all
  show ?thesis
    by (simp add: CollectN_body_def Let_def cmp)
qed

lemma CollectN_makeSeq_from:
  assumes "0 < sint n" and "int (length acc) < sint n"
  shows "makeSeq xs (CollectN_body n) (acc, ret) w =
         Some ((acc @ take (nat (sint n) - length acc) xs, ret), w)"
  using assms(2)
proof (induction xs arbitrary: acc)
  case Nil
  then show ?case by simp
next
  case (Cons x xs)
  have pos: "nat (sint n) - length acc = Suc (nat (sint n) - Suc (length acc))"
    using Cons.prems by simp
  note step = CollectN_body_item[OF assms(1) Cons.prems, of x ret w]
  show ?case
  proof (cases "sint n = int (Suc (length acc))")
    case True
    then have "nat (sint n) - Suc (length acc) = 0" by simp
    with True show ?thesis
      unfolding pos by (simp add: step)
  next
    case False
    with Cons.prems have "int (length (acc @ [x])) < sint n" by simp
    from Cons.IH[OF this] False show ?thesis
      unfolding pos by (simp add: step)
  qed
qed

lemma CollectN_makeSeq:
  assumes "0 < sint n" and "nat (sint n) \<le> maxCap"
  shows "CollectN maxCap (makeSeq xs) n w = Some (Inr ((take (nat (sint n)) xs, None), w))"
  using assms by (simp add: CollectN_def word_sless_alt CollectN_makeSeq_from)

section \<open>Exhaustive pagination\<close>

text \<open>
  The test server logs every request and, when it never fails, serves its incidents
  in pages of \<open>K\<close>.
\<close>

lemma testService_logs_request:
  "snd (SearchPage (testService items K failAt) ctx flt
          (Some \<lparr>po_Offset = off, po_Limit = defaultPageSize\<rparr>) opts w) =
   w\<lparr>requests := requests w @ [\<lparr>po_Offset = off, po_Limit = 100\<rparr>]\<rparr>"
  by (simp add: SearchPage_def SearchPage_request_def defaultPageSize_def maxPageSize_def
      testService_def testHandler_def Let_def word_sle_eq word_sless_alt)

lemma testService_logs_requests:
  "fold (\<lambda>off w. snd (SearchPage (testService items K failAt) ctx flt
                        (Some \<lparr>po_Offset = of_nat off, po_Limit = defaultPageSize\<rparr>) opts w)) offs w =
   w\<lparr>requests := requests w @ map (\<lambda>off. \<lparr>po_Offset = of_nat off, po_Limit = 100\<rparr>) offs\<rparr>"
  by (induction offs arbitrary: w) (simp_all add: testService_logs_request)

lemma testService_serves:
  assumes "length items < 2 ^ 63"
  shows "\<forall>off w. off \<le> length items \<longrightarrow>
         (\<exists>page. fst (SearchPage (testService items K 0) ctx flt
                        (Some \<lparr>po_Offset = of_nat off, po_Limit = defaultPageSize\<rparr>) opts w) = Inr page
            \<and> Data page = take K (drop off items)
            \<and> Total page = of_nat (length items)
            \<and> Offset page = of_nat off)"
proof (intro allI impI)
  fix off :: nat and w
  assume "off \<le> length items"
  with assms have "off < 2 ^ 64" by simp
  then have "unat (of_nat off :: go_int) = off"
    by (simp add: unat_of_nat)
  then show "\<exists>page. fst (SearchPage (testService items K 0) ctx flt
                        (Some \<lparr>po_Offset = of_nat off, po_Limit = defaultPageSize\<rparr>) opts w) = Inr page
            \<and> Data page = take K (drop off items)
            \<and> Total page = of_nat (length items)
            \<and> Offset page = of_nat off"
    by (simp add: SearchPage_def SearchPage_request_def defaultPageSize_def maxPageSize_def
        testService_def testHandler_def Let_def word_sle_eq word_sless_alt)
qed

text \<open>
  C1. Let the server hold a fixed list of \<open>N\<close> items (\<open>N < 2 ^ 63\<close>, as every Go
  slice) and answer every fetch at an offset \<open>off \<le> N\<close>, in whatever state it is,
  with the items \<open>off .. min (off + K, N) - 1\<close>, the total \<open>N\<close> and the
  offset \<open>off\<close>, for a page size \<open>K > 0\<close>; let the context never be cancelled.
  Then \<^verbatim>\<open>Collect\<close> over \<^verbatim>\<open>Search\<close> returns exactly the \<open>N\<close> items in their order and
  no error, and the world it leaves is the one the fetches at the offsets
  \<open>0, K, 2K, ...\<close> leave, made in this order: \<open>ceil (N / K) = (N + K - 1) div K\<close>
  of them, and one when \<open>N = 0\<close>. For the test server, which logs its requests, the
  log then holds exactly these requests, each with the default limit.
\<close>

theorem Collect_Search_exhaustive:
  fixes items :: "'i option list" and served :: "string option list"
  assumes "0 < K"
      and "length items < 2 ^ 63"
      and "\<forall>w. ctx w = None"
      and "\<forall>off w. off \<le> length items \<longrightarrow>
         (\<exists>page. fst (SearchPage s ctx flt (Some \<lparr>po_Offset = of_nat off, po_Limit = defaultPageSize\<rparr>) opts w) = Inr page
            \<and> Data page = take K (drop off items)
            \<and> Total page = of_nat (length items)
            \<and> Offset page = of_nat off)"
  shows "Collect_iter (Search s ctx flt opts) w =
         Some ((items, None),
               fold (\<lambda>off w. snd (SearchPage s ctx flt (Some \<lparr>po_Offset = of_nat off, po_Limit = defaultPageSize\<rparr>) opts w))
                 (map (\<lambda>j. j * K) [0..<max 1 ((length items + K - 1) div K)]) w)
       \<and> (length served < 2 ^ 63 \<longrightarrow>
            Collect_iter (Search (testService served K 0) Background None []) \<lparr>requests = [], cancelled = False\<rparr> =
            Some ((served, None),
                  \<lparr>requests = map (\<lambda>j. \<lparr>po_Offset = of_nat (j * K), po_Limit = 100\<rparr>)
                                 [0..<max 1 ((length served + K - 1) div K)],
                   cancelled = False\<rparr>))"
proof (intro conjI impI)
  show "Collect_iter (Search s ctx flt opts) w =
         Some ((items, None),
               fold (\<lambda>off w. snd (SearchPage s ctx flt (Some \<lparr>po_Offset = of_nat off, po_Limit = defaultPageSize\<rparr>) opts w))
                 (map (\<lambda>j. j * K) [0..<max 1 ((length items + K - 1) div K)]) w)"
    using Search_loop_serves[OF assms, of 0 "[]" w] by (simp add: Collect_iter_def Search_def)
next
  assume N: "length served < 2 ^ 63"
  have live: "\<forall>w :: world. (Background :: (test_error, world) Context) w = None"
    by (simp add: Background_def)
  show "Collect_iter (Search (testService served K 0) Background None []) \<lparr>requests = [], cancelled = False\<rparr> =
            Some ((served, None),
                  \<lparr>requests = map (\<lambda>j. \<lparr>po_Offset = of_nat (j * K), po_Limit = 100\<rparr>)
                                 [0..<max 1 ((length served + K - 1) div K)],
                   cancelled = False\<rparr>)"
    using Search_loop_serves[OF assms(1) N live testService_serves[OF N],
        where i = 0 and acc = "[]" and w = "\<lparr>requests = [], cancelled = False\<rparr>"]
    by (simp add: Collect_iter_def Search_def testService_logs_requests comp_def)
qed

theorem Collect_Search_exhaustive_witness:
  "Collect_iter (Search (testService fiveIncidents 2 0) Background None []) \<lparr>requests = [], cancelled = False\<rparr> =
   Some ((fiveIncidents, None),
         \<lparr>requests = [\<lparr>po_Offset = 0, po_Limit = 100\<rparr>, \<lparr>po_Offset = 2, po_Limit = 100\<rparr>,
                      \<lparr>po_Offset = 4, po_Limit = 100\<rparr>],
          cancelled = False\<rparr>)"
proof -
  have K: "0 < (2::nat)" by simp
  have N: "length fiveIncidents < 2 ^ 63" by (simp add: fiveIncidents_def)
  have ctx: "\<forall>w::world. (Background :: (test_error, world) Context) w = None" by (simp add: Background_def)
  have serves: "\<forall>off w. off \<le> length fiveIncidents \<longrightarrow>
         (\<exists>page. fst (SearchPage (testService fiveIncidents 2 0) Background None
                        (Some \<lparr>po_Offset = of_nat off, po_Limit = defaultPageSize\<rparr>) [] w) = Inr page
            \<and> Data page = take 2 (drop off fiveIncidents)
            \<and> Total page = of_nat (length fiveIncidents)
            \<and> Offset page = of_nat off)"
    by (simp add: SearchPage_def SearchPage_request_def defaultPageSize_def maxPageSize_def
        testService_def testHandler_def Let_def fiveIncidents_def word_sle_eq word_sless_alt unat_of_nat)
  have calls: "[0..<max 1 ((length fiveIncidents + 2 - 1) div 2)] = [0, 1, 2]"
    by (simp add: fiveIncidents_def upt_rec)
  from Collect_Search_exhaustive[OF K N ctx serves, of "\<lparr>requests = [], cancelled = False\<rparr>" fiveIncidents]
  have both:
    "Collect_iter (Search (testService fiveIncidents 2 0) Background None []) \<lparr>requests = [], cancelled = False\<rparr> =
       Some ((fiveIncidents, None),
             fold (\<lambda>off w. snd (SearchPage (testService fiveIncidents 2 0) Background None
                                   (Some \<lparr>po_Offset = of_nat off, po_Limit = defaultPageSize\<rparr>) [] w))
               (map (\<lambda>j. j * 2) [0..<max 1 ((length fiveIncidents + 2 - 1) div 2)])
               \<lparr>requests = [], cancelled = False\<rparr>)"
    "Collect_iter (Search (testService fiveIncidents 2 0) Background None []) \<lparr>requests = [], cancelled = False\<rparr> =
       Some ((fiveIncidents, None),
             \<lparr>requests = map (\<lambda>j. \<lparr>po_Offset = of_nat (j * 2), po_Limit = 100\<rparr>)
                            [0..<max 1 ((length fiveIncidents + 2 - 1) div 2)],
              cancelled = False\<rparr>)"
    using N by blast+
  from both(2) show ?thesis
    unfolding calls by simp
qed

section \<open>A failing fetch\<close>

text \<open>
  C2. Whenever \<^verbatim>\<open>Search\<close> has completed \<open>k\<close> rounds and its next fetch returns an
  error, \<^verbatim>\<open>Search\<close> ends in the state the acceptor leaves after one call with
  \<^verbatim>\<open>(nil, err)\<close> made right after that fetch, whatever the acceptor answers: one
  terminal pair and nothing after it, in particular no fetch. Under \<^verbatim>\<open>Collect\<close> the
  items collected during the \<open>k\<close> rounds come back unchanged together with that
  error.
\<close>

theorem Search_fetch_error_terminal:
  assumes "SearchPage s ctx flt (Some \<lparr>po_Offset = offset, po_Limit = defaultPageSize\<rparr>) opts w1 = (Inl err, w2)"
  shows "(Search_rounds s ctx flt opts yield k 0 c w = Some (offset, c1, w1) \<longrightarrow>
            Search s ctx flt opts yield c w = Some (snd (yield None (Some err) c1 w2)))
       \<and> (Search_rounds s ctx flt opts Collect_body k 0 ([], None) w = Some (offset, (items, ret), w1) \<longrightarrow>
            Collect_iter (Search s ctx flt opts) w = Some ((items, Some err), w2))"
proof -
  have stop: "Search s ctx flt opts y c w = Some (snd (y None (Some err) c1 w2))"
    if "Search_rounds s ctx flt opts y k 0 c w = Some (offset, c1, w1)" for y c c1
  proof -
    have "Search_round s ctx flt opts y offset c1 w1 =
            Return (fst (snd (y None (Some err) c1 w2))) (snd (snd (y None (Some err) c1 w2)))"
      using assms by (simp add: Search_round_def split: prod.splits)
    then have "Search_loop s ctx flt opts y offset c1 w1 = Some (snd (y None (Some err) c1 w2))"
      by (simp add: Search_loop_Return)
    with Search_loop_rounds[OF that] show ?thesis
      by (simp add: Search_def)
  qed
  have collect: "Collect_iter (Search s ctx flt opts) w = Some ((items, Some err), w2)"
    if "Search_rounds s ctx flt opts Collect_body k 0 ([], None) w = Some (offset, (items, ret), w1)"
    using stop[OF that] by (simp add: Collect_iter_def Collect_body_def)
  show ?thesis
  proof (intro conjI impI)
    assume "Search_rounds s ctx flt opts yield k 0 c w = Some (offset, c1, w1)"
    then show "Search s ctx flt opts yield c w = Some (snd (yield None (Some err) c1 w2))"
      by (rule stop)
  next
    assume "Search_rounds s ctx flt opts Collect_body k 0 ([], None) w = Some (offset, (items, ret), w1)"
    then show "Collect_iter (Search s ctx flt opts) w = Some ((items, Some err), w2)"
      by (rule collect)
  qed
qed

theorem Search_fetch_error_terminal_witness:
  "Collect_iter (Search (testService fiveIncidents 2 2) Background None []) \<lparr>requests = [], cancelled = False\<rparr> =
   Some (([Some ''inc-1'', Some ''inc-2''], Some (HTTPStatus 500)),
         \<lparr>requests = [\<lparr>po_Offset = 0, po_Limit = 100\<rparr>, \<lparr>po_Offset = 2, po_Limit = 100\<rparr>],
          cancelled = False\<rparr>)"
proof -
  let ?s = "testService fiveIncidents 2 2"
  let ?w0 = "\<lparr>requests = [], cancelled = False\<rparr>"
  let ?w1 = "\<lparr>requests = [\<lparr>po_Offset = 0, po_Limit = 100\<rparr>], cancelled = False\<rparr>"
  let ?w2 = "\<lparr>requests = [\<lparr>po_Offset = 0, po_Limit = 100\<rparr>, \<lparr>po_Offset = 2, po_Limit = 100\<rparr>], cancelled = False\<rparr>"
  have first_page: "Search_rounds ?s Background None [] Collect_body 1 0 ([], None) ?w0 =
                      Some (2, ([Some ''inc-1'', Some ''inc-2''], None), ?w1)"
    by (simp add: Search_round_def SearchPage_def SearchPage_request_def defaultPageSize_def maxPageSize_def
        testService_def testHandler_def Let_def fiveIncidents_def word_sle_eq word_sless_alt
        yieldPageItems_def Background_def Collect_body_def HasMore_def NextOffset_def)
  have second_fails: "SearchPage ?s Background None (Some \<lparr>po_Offset = 2, po_Limit = defaultPageSize\<rparr>) [] ?w1 =
                        (Inl (HTTPStatus 500), ?w2)"
    by (simp add: SearchPage_def SearchPage_request_def defaultPageSize_def maxPageSize_def
        testService_def testHandler_def Let_def word_sle_eq word_sless_alt)
  from Search_fetch_error_terminal[OF second_fails, of Collect_body 1 "([], None)" ?w0 "([], None)"
      "[Some ''inc-1'', Some ''inc-2'']" None] first_page
  show ?thesis by blast
qed

section \<open>Cancellation inside a page\<close>

text \<open>
  C3. Let the first \<open>i\<close> items of a fetched page have been pushed and accepted, and
  let \<^verbatim>\<open>ctx.Err()\<close> be set in the state reached then, before item \<open>i\<close> of the page.
  Then \<^verbatim>\<open>yieldPageItems\<close> gives \<^verbatim>\<open>false\<close> in the state the acceptor leaves after one
  call with \<^verbatim>\<open>(nil, err)\<close>: the items from \<open>i\<close> on are not pushed. If the page is the
  one \<^verbatim>\<open>Search\<close> fetched after \<open>k\<close> rounds, \<^verbatim>\<open>Search\<close> returns in that same state,
  without another fetch. The position \<open>i\<close> is any position of the page: the context
  is read before every item.
\<close>

theorem yieldPageItems_cancelled_mid_page:
  assumes "i < length (Data page)"
      and "yieldItems ctx (take i (Data page)) yield c w = (True, c1, w1)"
      and "ctx w1 = Some err"
  shows "yieldPageItems ctx page yield c w = (False, snd (yield None (Some err) c1 w1))
       \<and> (Search_rounds s ctx flt opts yield k 0 c0 w0 = Some (offset, c, w')
          \<and> SearchPage s ctx flt (Some \<lparr>po_Offset = offset, po_Limit = defaultPageSize\<rparr>) opts w' = (Inr page, w)
          \<longrightarrow> Search s ctx flt opts yield c0 w0 = Some (snd (yield None (Some err) c1 w1)))"
proof -
  have stop: "yieldPageItems ctx page yield c w = (False, snd (yield None (Some err) c1 w1))"
    using yieldItems_stop_at[OF assms(1,2)] assms(3)
    by (simp add: yieldPageItems_def split: prod.splits)
  then have stop': "yieldPageItems ctx page yield c w =
      (False, fst (snd (yield None (Some err) c1 w1)), snd (snd (yield None (Some err) c1 w1)))"
    by simp
  show ?thesis
  proof (intro conjI impI)
    show "yieldPageItems ctx page yield c w = (False, snd (yield None (Some err) c1 w1))"
      by (rule stop)
  next
    assume "Search_rounds s ctx flt opts yield k 0 c0 w0 = Some (offset, c, w')
          \<and> SearchPage s ctx flt (Some \<lparr>po_Offset = offset, po_Limit = defaultPageSize\<rparr>) opts w' = (Inr page, w)"
    then show "Search s ctx flt opts yield c0 w0 = Some (snd (yield None (Some err) c1 w1))"
      using Search_returns_from_round[of s ctx flt opts yield k c0 w0 offset c w' page w, OF _ _ stop'] by simp
  qed
qed

theorem yieldPageItems_cancelled_mid_page_witness:
  "Search (testService threeIncidents 3 0) cancelCtx None [] cancelAfterFirst ([], None)
     \<lparr>requests = [], cancelled = False\<rparr> =
   Some (([Some ''inc-1''], Some ContextCanceled),
         \<lparr>requests = [\<lparr>po_Offset = 0, po_Limit = 100\<rparr>], cancelled = True\<rparr>)"
proof -
  let ?s = "testService threeIncidents 3 0"
  let ?page = "\<lparr>Data = threeIncidents, Total = 3, Offset = 0, PageSize = 0\<rparr> :: string IncidentPage"
  let ?init = "\<lparr>requests = [], cancelled = False\<rparr>"
  let ?fetched = "\<lparr>requests = [\<lparr>po_Offset = 0, po_Limit = 100\<rparr>], cancelled = False\<rparr>"
  let ?stopped = "\<lparr>requests = [\<lparr>po_Offset = 0, po_Limit = 100\<rparr>], cancelled = True\<rparr>"
  have second: "1 < length (Data ?page)"
    by (simp add: threeIncidents_def)
  have first_delivered: "yieldItems cancelCtx (take 1 (Data ?page)) cancelAfterFirst ([], None) ?fetched =
                           (True, ([Some ''inc-1''], None), ?stopped)"
    by (simp add: threeIncidents_def cancelCtx_def cancelAfterFirst_def)
  have cancelled: "cancelCtx ?stopped = Some ContextCanceled"
    by (simp add: cancelCtx_def)
  have start: "Search_rounds ?s cancelCtx None [] cancelAfterFirst 0 0 ([], None) ?init = Some (0, ([], None), ?init)"
    by simp
  have fetch: "SearchPage ?s cancelCtx None (Some \<lparr>po_Offset = 0, po_Limit = defaultPageSize\<rparr>) [] ?init = (Inr ?page, ?fetched)"
    by (simp add: SearchPage_def SearchPage_request_def defaultPageSize_def maxPageSize_def
        testService_def testHandler_def Let_def threeIncidents_def word_sle_eq word_sless_alt)
  from yieldPageItems_cancelled_mid_page[OF second first_delivered cancelled,
      where s = ?s and flt = None and opts = "[]" and k = 0 and ?c0.0 = "([], None)" and ?w0.0 = ?init
        and offset = 0 and w' = ?init] start fetch
  have "Search ?s cancelCtx None [] cancelAfterFirst ([], None) ?init =
          Some (snd (cancelAfterFirst None (Some ContextCanceled) ([Some ''inc-1''], None) ?stopped))"
    by blast
  then show ?thesis
    by (simp add: cancelAfterFirst_def)
qed

section \<open>An acceptor that answers false\<close>

text \<open>
  C4. Let the first \<open>i\<close> items of a fetched page have been pushed and accepted, the
  context not be cancelled, and the acceptor answer \<^verbatim>\<open>false\<close> to item \<open>i\<close>. Then
  \<^verbatim>\<open>yieldPageItems\<close> gives \<^verbatim>\<open>false\<close> in the very state the acceptor left, and if the
  page is the one \<^verbatim>\<open>Search\<close> fetched after \<open>k\<close> rounds, \<^verbatim>\<open>Search\<close> returns in that
  state: nothing is pushed and nothing is fetched after the \<^verbatim>\<open>false\<close>.
\<close>

theorem Search_stops_when_acceptor_refuses:
  assumes "i < length (Data page)"
      and "yieldItems ctx (take i (Data page)) yield c w = (True, c1, w1)"
      and "ctx w1 = None"
      and "yield (Data page ! i) None c1 w1 = (False, c2, w2)"
  shows "yieldPageItems ctx page yield c w = (False, c2, w2)
       \<and> (Search_rounds s ctx flt opts yield k 0 c0 w0 = Some (offset, c, w')
          \<and> SearchPage s ctx flt (Some \<lparr>po_Offset = offset, po_Limit = defaultPageSize\<rparr>) opts w' = (Inr page, w)
          \<longrightarrow> Search s ctx flt opts yield c0 w0 = Some (c2, w2))"
proof -
  have stop: "yieldPageItems ctx page yield c w = (False, c2, w2)"
    using yieldItems_stop_at[OF assms(1,2)] assms(3,4)
    by (simp add: yieldPageItems_def)
  show ?thesis
  proof (intro conjI impI)
    show "yieldPageItems ctx page yield c w = (False, c2, w2)"
      by (rule stop)
  next
    assume "Search_rounds s ctx flt opts yield k 0 c0 w0 = Some (offset, c, w')
          \<and> SearchPage s ctx flt (Some \<lparr>po_Offset = offset, po_Limit = defaultPageSize\<rparr>) opts w' = (Inr page, w)"
    then show "Search s ctx flt opts yield c0 w0 = Some (c2, w2)"
      using Search_returns_from_round[of s ctx flt opts yield k c0 w0 offset c w' page w, OF _ _ stop] by simp
  qed
qed

theorem Search_stops_when_acceptor_refuses_witness:
  "CollectN (2 ^ 45) (Search (testService fiveIncidents 2 0) Background None []) 1
     \<lparr>requests = [], cancelled = False\<rparr> =
   Some (Inr (([Some ''inc-1''], None), \<lparr>requests = [\<lparr>po_Offset = 0, po_Limit = 100\<rparr>], cancelled = False\<rparr>))"
proof -
  let ?s = "testService fiveIncidents 2 0"
  let ?page = "\<lparr>Data = [Some ''inc-1'', Some ''inc-2''], Total = 5, Offset = 0, PageSize = 0\<rparr> :: string IncidentPage"
  let ?init = "\<lparr>requests = [], cancelled = False\<rparr>"
  let ?fetched = "\<lparr>requests = [\<lparr>po_Offset = 0, po_Limit = 100\<rparr>], cancelled = False\<rparr>"
  let ?yield = "CollectN_body 1 :: (string option, test_error, string option list \<times> test_error option, world) yield"
  have first: "0 < length (Data ?page)"
    by simp
  have none_before: "yieldItems Background (take 0 (Data ?page)) ?yield ([], None) ?fetched = (True, ([], None), ?fetched)"
    by simp
  have live: "(Background :: (test_error, world) Context) ?fetched = None"
    by (simp add: Background_def)
  have refuses: "?yield (Data ?page ! 0) None ([], None) ?fetched = (False, ([Some ''inc-1''], None), ?fetched)"
    by (simp add: CollectN_body_def word_sle_eq)
  have start: "Search_rounds ?s Background None [] ?yield 0 0 ([], None) ?init = Some (0, ([], None), ?init)"
    by simp
  have fetch: "SearchPage ?s Background None (Some \<lparr>po_Offset = 0, po_Limit = defaultPageSize\<rparr>) [] ?init = (Inr ?page, ?fetched)"
    by (simp add: SearchPage_def SearchPage_request_def defaultPageSize_def maxPageSize_def
        testService_def testHandler_def Let_def fiveIncidents_def word_sle_eq word_sless_alt)
  from Search_stops_when_acceptor_refuses[OF first none_before live refuses,
      where s = ?s and flt = None and opts = "[]" and k = 0 and ?c0.0 = "([], None)" and ?w0.0 = ?init
        and offset = 0 and w' = ?init] start fetch
  have "Search ?s Background None [] ?yield ([], None) ?init = Some (([Some ''inc-1''], None), ?fetched)"
    by blast
  then show ?thesis
    by (simp add: CollectN_def word_sless_alt)
qed

section \<open>Continuing after a page\<close>

text \<open>
  C5. \<^verbatim>\<open>HasMore\<close> is \<^verbatim>\<open>Offset + len(Data) < Total\<close> and \<^verbatim>\<open>NextOffset\<close> is
  \<^verbatim>\<open>Offset + len(Data)\<close>, in Go's 64-bit arithmetic, which is the arithmetic of
  the integers as long as the sum stays below \<open>2 ^ 63\<close>; a page that ends exactly
  at the total has no more. After a page has been delivered in full, \<^verbatim>\<open>Search\<close>
  returns when \<^verbatim>\<open>HasMore\<close> is false and otherwise goes round again with
  \<^verbatim>\<open>offset = NextOffset\<close>, which depends on the page alone and not on the limit
  that was requested.
\<close>

theorem HasMore_NextOffset_drive_Search:
  "HasMore page = (Offset page + of_nat (length (Data page)) <s Total page)
   \<and> NextOffset page = Offset page + of_nat (length (Data page))
   \<and> (sint (Offset page) + int (length (Data page)) < 2 ^ 63 \<longrightarrow>
        HasMore page = (sint (Offset page) + int (length (Data page)) < sint (Total page))
        \<and> sint (NextOffset page) = sint (Offset page) + int (length (Data page)))
   \<and> (Offset page + of_nat (length (Data page)) = Total page \<longrightarrow> \<not> HasMore page)
   \<and> (SearchPage s ctx flt (Some \<lparr>po_Offset = offset, po_Limit = defaultPageSize\<rparr>) opts w = (Inr page, w1)
        \<and> yieldPageItems ctx page yield c w1 = (True, c', w') \<longrightarrow>
        Search_round s ctx flt opts yield offset c w =
          (if HasMore page then Again (NextOffset page) c' w' else Return c' w')
        \<and> Search_loop s ctx flt opts yield offset c w =
          (if HasMore page then Search_loop s ctx flt opts yield (NextOffset page) c' w'
           else Some (c', w')))"
proof -
  have exact: "sint (Offset page) + int (length (Data page)) < 2 ^ 63 \<Longrightarrow>
      HasMore page = (sint (Offset page) + int (length (Data page)) < sint (Total page))
      \<and> sint (NextOffset page) = sint (Offset page) + int (length (Data page))"
    by (simp add: HasMore_def NextOffset_def word_sless_alt sint_add_of_nat_exact)
  have final: "Offset page + of_nat (length (Data page)) = Total page \<Longrightarrow> \<not> HasMore page"
    by (simp add: HasMore_def word_sless_alt)
  have loop: "Search_round s ctx flt opts yield offset c w =
          (if HasMore page then Again (NextOffset page) c' w' else Return c' w')
        \<and> Search_loop s ctx flt opts yield offset c w =
          (if HasMore page then Search_loop s ctx flt opts yield (NextOffset page) c' w'
           else Some (c', w'))"
    if sp: "SearchPage s ctx flt (Some \<lparr>po_Offset = offset, po_Limit = defaultPageSize\<rparr>) opts w = (Inr page, w1)"
    and yp: "yieldPageItems ctx page yield c w1 = (True, c', w')"
  proof -
    have r: "Search_round s ctx flt opts yield offset c w =
          (if HasMore page then Again (NextOffset page) c' w' else Return c' w')"
      by (simp add: Search_round_def sp yp)
    show ?thesis
    proof (cases "HasMore page")
      case True
      with r show ?thesis by (simp add: Search_loop_Again)
    next
      case False
      with r show ?thesis by (simp add: Search_loop_Return)
    qed
  qed
  show ?thesis
    using exact final loop by (simp add: HasMore_def NextOffset_def)
qed

theorem HasMore_NextOffset_drive_Search_witness:
  "\<not> HasMore \<lparr>Data = [Some ''inc-5''], Total = 5, Offset = 4, PageSize = 0\<rparr>
   \<and> sint (NextOffset \<lparr>Data = [Some ''inc-5''], Total = 5, Offset = 4, PageSize = 0\<rparr>) = 5
   \<and> Search_loop (testService fiveIncidents 2 0) Background None [] Collect_body 4 ([], None)
         \<lparr>requests = [], cancelled = False\<rparr>
       = Some (([Some ''inc-5''], None), \<lparr>requests = [\<lparr>po_Offset = 4, po_Limit = 100\<rparr>], cancelled = False\<rparr>)"
proof -
  let ?page = "\<lparr>Data = [Some ''inc-5''], Total = 5, Offset = 4, PageSize = 0\<rparr> :: string IncidentPage"
  let ?w0 = "\<lparr>requests = [], cancelled = False\<rparr>"
  let ?w1 = "\<lparr>requests = [\<lparr>po_Offset = 4, po_Limit = 100\<rparr>], cancelled = False\<rparr>"
  have fetch: "SearchPage (testService fiveIncidents 2 0) Background None
                 (Some \<lparr>po_Offset = 4, po_Limit = defaultPageSize\<rparr>) [] ?w0 = (Inr ?page, ?w1)"
    by (simp add: SearchPage_def SearchPage_request_def defaultPageSize_def maxPageSize_def
        testService_def testHandler_def Let_def fiveIncidents_def word_sle_eq word_sless_alt)
  have deliver: "yieldPageItems Background ?page Collect_body ([], None) ?w1 = (True, ([Some ''inc-5''], None), ?w1)"
    by (simp add: yieldPageItems_def Background_def Collect_body_def)
  have small: "sint (Offset ?page) + int (length (Data ?page)) < 2 ^ 63"
    by simp
  have final: "Offset ?page + of_nat (length (Data ?page)) = Total ?page"
    by simp
  note drive = HasMore_NextOffset_drive_Search[of ?page "testService fiveIncidents 2 0" Background None 4 "[]" ?w0 ?w1
      Collect_body "([], None)" "([Some ''inc-5''], None)" ?w1]
  from drive final have last: "\<not> HasMore ?page"
    by blast
  from drive small have next_off: "sint (NextOffset ?page) = sint (Offset ?page) + int (length (Data ?page))"
    by blast
  from drive fetch deliver have
    "Search_loop (testService fiveIncidents 2 0) Background None [] Collect_body 4 ([], None) ?w0 =
       (if HasMore ?page
        then Search_loop (testService fiveIncidents 2 0) Background None [] Collect_body (NextOffset ?page)
               ([Some ''inc-5''], None) ?w1
        else Some (([Some ''inc-5''], None), ?w1))"
    by blast
  with last next_off show ?thesis
    by simp
qed

section \<open>An empty page that promises more\<close>




section \<open>Normalising the page size\<close>

text \<open>
  C7. In the request \<^verbatim>\<open>SearchPage\<close> hands to the transport, a limit \<open>L \<le> 0\<close> has
  become 100, a limit \<open>L > 1000\<close> has become 1000, and any other limit is
  unchanged; the offset is the caller's. A \<^verbatim>\<open>nil\<close> page is offset 0 with limit 100.
  \<^verbatim>\<open>SearchPage\<close> changes the world by this one request and nothing else.
\<close>

theorem SearchPage_limit_normalized:
  "sr_PageOptions (Body (SearchPage_request flt (Some \<lparr>po_Offset = off, po_Limit = L\<rparr>) opts)) =
     \<lparr>po_Offset = off, po_Limit = (if sint L \<le> 0 then 100 else if 1000 < sint L then 1000 else L)\<rparr>
   \<and> sr_PageOptions (Body (SearchPage_request flt None opts)) = \<lparr>po_Offset = 0, po_Limit = 100\<rparr>
   \<and> snd (SearchPage s ctx flt page opts w) = snd (DoJSON s ctx (SearchPage_request flt page opts) w)"
proof (intro conjI)
  show "sr_PageOptions (Body (SearchPage_request flt (Some \<lparr>po_Offset = off, po_Limit = L\<rparr>) opts)) =
     \<lparr>po_Offset = off, po_Limit = (if sint L \<le> 0 then 100 else if 1000 < sint L then 1000 else L)\<rparr>"
    by (simp add: SearchPage_request_def Let_def defaultPageSize_def maxPageSize_def word_sle_eq word_sless_alt)
  show "sr_PageOptions (Body (SearchPage_request flt None opts)) = \<lparr>po_Offset = 0, po_Limit = 100\<rparr>"
    by (simp add: SearchPage_request_def Let_def defaultPageSize_def maxPageSize_def word_sle_eq word_sless_alt)
  show "snd (SearchPage s ctx flt page opts w) = snd (DoJSON s ctx (SearchPage_request flt page opts) w)"
    by (simp add: SearchPage_def split: prod.splits sum.splits)
qed

theorem SearchPage_limit_normalized_witness:
  "po_Limit (sr_PageOptions (Body (SearchPage_request (None :: unit option) (Some \<lparr>po_Offset = 0, po_Limit = 0\<rparr>) []))) = 100
   \<and> po_Limit (sr_PageOptions (Body (SearchPage_request (None :: unit option) (Some \<lparr>po_Offset = 0, po_Limit = - 5\<rparr>) []))) = 100
   \<and> po_Limit (sr_PageOptions (Body (SearchPage_request (None :: unit option) (Some \<lparr>po_Offset = 0, po_Limit = 5000\<rparr>) []))) = 1000
   \<and> po_Limit (sr_PageOptions (Body (SearchPage_request (None :: unit option) (Some \<lparr>po_Offset = 0, po_Limit = 250\<rparr>) []))) = 250
   \<and> requests (snd (SearchPage (testService fiveIncidents 2 0) Background None (Some \<lparr>po_Offset = 0, po_Limit = 5000\<rparr>) []
         \<lparr>requests = [], cancelled = False\<rparr>)) = [\<lparr>po_Offset = 0, po_Limit = 1000\<rparr>]"
  using SearchPage_limit_normalized[of "None :: unit option" 0 0 "[]"
          "testService fiveIncidents 2 0" Background "Some \<lparr>po_Offset = 0, po_Limit = 5000\<rparr>" "\<lparr>requests = [], cancelled = False\<rparr>"]
        SearchPage_limit_normalized[of "None :: unit option" 0 "- 5" "[]", THEN conjunct1]
        SearchPage_limit_normalized[of "None :: unit option" 0 5000 "[]", THEN conjunct1]
        SearchPage_limit_normalized[of "None :: unit option" 0 250 "[]", THEN conjunct1]
  by (simp add: testService_def testHandler_def Let_def)

section \<open>CollectN and Take at a count of zero\<close>

text \<open>
  C8. Whatever the allocation bound, \<^verbatim>\<open>CollectN\<close> with \<open>n = 0\<close> over the sequence of
  1, 2, 3 returns the one item 1, which it took from the source, and with \<open>n = - 1\<close>
  it panics. Where \<^verbatim>\<open>make\<close> allocates \<open>n\<close>: with \<open>n = 3\<close> over a sequence of five
  items it returns 1, 2, 3 and the source pushes no fourth pair, and an error pushed
  before \<open>n\<close> items comes back with the items before it.
\<close>

theorem CollectN_zero_collects_one:
  "CollectN maxCap (logged (makeSeq [1, 2, 3 :: go_int])) 0 [] = Some (Inr (([1], None), [(1, None)]))
   \<and> CollectN maxCap (makeSeq [1, 2, 3 :: go_int]) (- 1) w = Some (Inl MakesliceCapOutOfRange)
   \<and> (3 \<le> maxCap \<longrightarrow>
        CollectN maxCap (logged (makeSeq [1, 2, 3, 4, 5 :: go_int])) 3 [] =
          Some (Inr (([1, 2, 3], None), [(1, None), (2, None), (3, None)])))
   \<and> (5 \<le> maxCap \<longrightarrow>
        CollectN maxCap (logged (makeSeqWithError 0 [1, 2, 3, 4, 5 :: go_int] 2 TestError)) 5 [] =
          Some (Inr (([1, 2], Some TestError), [(1, None), (2, None), (0, Some TestError)])))"
  by (simp add: logged_def makeSeqWithError_def CollectN_def CollectN_body_def word_sle_eq word_sless_alt)

theorem CollectN_zero_collects_one_witness:
  "CollectN (2 ^ 45) (logged (makeSeq [1, 2, 3 :: go_int])) 0 [] = Some (Inr (([1], None), [(1, None)]))
   \<and> CollectN (2 ^ 45) (logged (makeSeq [1, 2, 3, 4, 5 :: go_int])) 3 [] =
         Some (Inr (([1, 2, 3], None), [(1, None), (2, None), (3, None)]))
   \<and> CollectN (2 ^ 45) (logged (makeSeqWithError 0 [1, 2, 3, 4, 5 :: go_int] 2 TestError)) 5 [] =
         Some (Inr (([1, 2], Some TestError), [(1, None), (2, None), (0, Some TestError)]))"
proof -
  have three: "(3 :: nat) \<le> 2 ^ 45" and five: "(5 :: nat) \<le> 2 ^ 45"
    by simp_all
  note at_zero = CollectN_zero_collects_one[of "2 ^ 45", THEN conjunct1]
    and at_three = CollectN_zero_collects_one[of "2 ^ 45", THEN conjunct2, THEN conjunct2, THEN conjunct1, THEN mp, OF three]
    and with_error = CollectN_zero_collects_one[of "2 ^ 45", THEN conjunct2, THEN conjunct2, THEN conjunct2, THEN mp, OF five]
  show ?thesis
    by (intro conjI) (rule at_zero, rule at_three, rule with_error)
qed

text \<open>
  C9. \<^verbatim>\<open>Take\<close> with \<open>n = 0\<close>, and with \<open>n = - 1\<close>, over the sequence of 1, 2, 3 pushes
  the item 1 to its acceptor; with \<open>n = 3\<close> over a sequence of five items it pushes
  1, 2, 3 and the source pushes no fourth pair, and an upstream error is pushed on
  as it came, after which the source is not asked again.
\<close>

theorem Take_zero_yields_one:
  "Collect_iter (Take (logged (makeSeq [1, 2, 3 :: go_int])) 0) [] = Some (([1], None), [(1, None)])
   \<and> Collect_iter (Take (logged (makeSeq [1, 2, 3 :: go_int])) (- 1)) [] = Some (([1], None), [(1, None)])
   \<and> Collect_iter (Take (logged (makeSeq [1, 2, 3, 4, 5 :: go_int])) 3) [] =
         Some (([1, 2, 3], None), [(1, None), (2, None), (3, None)])
   \<and> Collect_iter (Take (logged (makeSeqWithError 0 [1, 2, 3, 4, 5 :: go_int] 2 TestError)) 5) [] =
         Some (([1, 2], Some TestError), [(1, None), (2, None), (0, Some TestError)])"
  by (simp add: logged_def makeSeqWithError_def Collect_iter_def Collect_body_def Take_def Take_body_def word_sle_eq)

section \<open>Nesting the combinators\<close>

text \<open>
  C10. Over the sequence of 1 to 10, \<^verbatim>\<open>Take(Map(Filter(seq, isEven), double), 3)\<close>
  collects to 4, 8, 12 without error and leaves the world as it was; the source has
  pushed the items 1 to 6 and no more when the third result is taken. For every
  list, predicate, function and count \<open>n \<ge> 1\<close>, the same nesting over the
  list-backed sequence collects to the first \<open>n\<close> mapped items of the filtered list.
\<close>

theorem composition_Take_Map_Filter:
  "Collect_iter (Take (Map 0 (Filter (makeSeq [1, 2, 3, 4, 5, 6, 7, 8, 9, 10]) isEven) double) 3) w =
     Some (([4, 8, 12], None), w)
   \<and> Collect_iter (Take (Map 0 (Filter (logged (makeSeq [1, 2, 3, 4, 5, 6, 7, 8, 9, 10])) isEven) double) 3) [] =
     Some (([4, 8, 12], None), [(1, None), (2, None), (3, None), (4, None), (5, None), (6, None)])
   \<and> (0 < sint n \<longrightarrow>
        Collect_iter (Take (Map zero (Filter (makeSeq xs) pred) fn) n) w' =
          Some ((take (nat (sint n)) (map fn (filter pred xs)), None), w'))"
proof (intro conjI impI)
  show "Collect_iter (Take (Map 0 (Filter (makeSeq [1, 2, 3, 4, 5, 6, 7, 8, 9, 10]) isEven) double) 3) w =
     Some (([4, 8, 12], None), w)"
    by (simp add: Collect_iter_def Take_def Take_body_def Collect_body_def Map_def Map_body_def
      Filter_def Filter_body_def isEven_def double_def word_sle_eq signed_modulo_int_def)
  show "Collect_iter (Take (Map 0 (Filter (logged (makeSeq [1, 2, 3, 4, 5, 6, 7, 8, 9, 10])) isEven) double) 3) [] =
     Some (([4, 8, 12], None), [(1, None), (2, None), (3, None), (4, None), (5, None), (6, None)])"
    by (simp add: logged_def Collect_iter_def Take_def Take_body_def Collect_body_def Map_def Map_body_def
      Filter_def Filter_body_def isEven_def double_def word_sle_eq signed_modulo_int_def)
  assume "0 < sint n"
  then show "Collect_iter (Take (Map zero (Filter (makeSeq xs) pred) fn) n) w' =
          Some ((take (nat (sint n)) (map fn (filter pred xs)), None), w')"
    by (simp add: Collect_iter_def nested_makeSeq Collect_makeSeq_from)
qed

theorem composition_Take_Map_Filter_witness:
  "Collect_iter (Take (Map 0 (Filter (makeSeq [1, 2, 3, 4, 5, 6, 7, 8, 9, 10]) isEven) double) 2) () =
     Some (([4, 8], None :: test_error option), ())"
proof -
  have pos: "0 < sint (2 :: go_int)"
    by simp
  have "Collect_iter (Take (Map 0 (Filter (makeSeq [1, 2, 3, 4, 5, 6, 7, 8, 9, 10]) isEven) double) 2) () =
          Some ((take (nat (sint (2 :: go_int))) (map double (filter isEven [1, 2, 3, 4, 5, 6, 7, 8, 9, 10])),
                 None :: test_error option), ())"
    by (rule composition_Take_Map_Filter[THEN conjunct2, THEN conjunct2, THEN mp, OF pos])
  then show ?thesis
    by (simp add: isEven_def double_def signed_modulo_int_def)
qed

end
